theory Spec2Isabelle
  imports Complex_Main "HOL-Library.Sublist" "HOL-Library.Word"
begin

section \<open>Strings\<close>

text \<open>
  A JavaScript string is a sequence of 16-bit code units (UTF-16). The message of an
  \<^verbatim>\<open>Error\<close> is the only string kept as a HOL string: it is a fixed text that is never
  inspected.
\<close>

type_synonym code_unit = "16 word"

type_synonym js_string = "code_unit list"

section \<open>Data model (user.model.ts)\<close>

text \<open>
  The role \<^verbatim>\<open>'user'\<close> is called \<open>user_role\<close> here: \<open>user\<close> is the name of a field of the
  pending deletion below.
\<close>

datatype UserRole = admin | user_role

datatype UserStatus = active | inactive

text \<open>
  \<^verbatim>\<open>Omit<User, 'id'>\<close>: every field of the interface \<^verbatim>\<open>User\<close> except \<^verbatim>\<open>id\<close>. A field
  declared with \<^verbatim>\<open>?\<close> is \<open>None\<close> when the key is absent or \<^verbatim>\<open>undefined\<close>.
\<close>

record UserData =
  username :: js_string
  email :: js_string
  firstName :: js_string
  lastName :: js_string
  role :: UserRole
  status :: UserStatus
  phone :: "js_string option"
  address :: "js_string option"
  dateOfBirth :: "js_string option"
  department :: "js_string option"
  joinDate :: "js_string option"
  avatar :: "js_string option"
  lastActive :: "js_string option"

text \<open>
  The interface \<^verbatim>\<open>User\<close>. Its field \<^verbatim>\<open>id\<close> is called \<open>uid\<close> here, since \<open>id\<close> is the
  identity function of HOL. The ids are integers.
\<close>

record User = UserData +
  uid :: int

text \<open>
  \<^verbatim>\<open>Partial<User>\<close>: every key may be absent (\<open>None\<close>). A present key of a required
  field carries a value of the field's type; a present key of an optional field
  carries a string or \<^verbatim>\<open>undefined\<close> (\<open>Some None\<close>), which the spread copies as it is.
\<close>

record UserPatch =
  patch_id :: "int option"
  patch_username :: "js_string option"
  patch_email :: "js_string option"
  patch_firstName :: "js_string option"
  patch_lastName :: "js_string option"
  patch_role :: "UserRole option"
  patch_status :: "UserStatus option"
  patch_phone :: "js_string option option"
  patch_address :: "js_string option option"
  patch_dateOfBirth :: "js_string option option"
  patch_department :: "js_string option option"
  patch_joinDate :: "js_string option option"
  patch_avatar :: "js_string option option"
  patch_lastActive :: "js_string option option"

record UserFilter =
  searchTerm :: "js_string option"
  filter_role :: "UserRole option"
  filter_status :: "UserStatus option"
  filter_department :: "js_string option"

section \<open>The Remote Store as seen by the service\<close>

text \<open>
  \<^verbatim>\<open>createUser\<close> declares its parameter as \<^verbatim>\<open>Omit<User, 'id'>\<close>, and \<^verbatim>\<open>undoDelete\<close>
  passes it a whole \<^verbatim>\<open>User\<close>, which the structural typing of TypeScript accepts: the
  object travels as it is, with its \<^verbatim>\<open>id\<close>, in the body of the POST request.
\<close>

datatype CreateBody = WithoutId UserData | WithId User

datatype http_request = POST CreateBody | PUT int User | DELETE int

text \<open>
  An error is either an \<^verbatim>\<open>Error\<close> object made by the service itself, with its message,
  or the failure that \<^verbatim>\<open>HttpClient\<close> delivers (identified by its status code), which
  the service passes on unchanged.
\<close>

datatype error = Error string | HttpErrorResponse int

datatype 'a http_response = Success 'a | Failure int

section \<open>The state of UserService\<close>

record LastDeleted =
  user :: User
  index :: nat

record ServiceState =
  usersState :: "User list"
  loadingState :: bool
  lastDeletedUser :: "LastDeleted option"

section \<open>Built-in functions of JavaScript\<close>

text \<open>\<^verbatim>\<open>Array.prototype.findIndex\<close>: the first index whose element satisfies the predicate, or -1.\<close>

fun findIndexFrom :: "nat \<Rightarrow> ('a \<Rightarrow> bool) \<Rightarrow> 'a list \<Rightarrow> int" where
  "findIndexFrom k P [] = - 1"
| "findIndexFrom k P (x # xs) = (if P x then int k else findIndexFrom (Suc k) P xs)"

definition findIndex :: "('a \<Rightarrow> bool) \<Rightarrow> 'a list \<Rightarrow> int" where
  "findIndex P xs = findIndexFrom 0 P xs"

text \<open>
  \<^verbatim>\<open>Array.prototype.slice(start, end)\<close> on integer arguments: a negative argument counts
  from the end, and both are clamped to the array.
\<close>

definition slice :: "'a list \<Rightarrow> int \<Rightarrow> int \<Rightarrow> 'a list" where
  "slice xs start end =
     (let n = int (length xs);
          k = (if start < 0 then max (n + start) 0 else min start n);
          final = (if end < 0 then max (n + end) 0 else min end n)
      in take (nat (max (final - k) 0)) (drop (nat k) xs))"

text \<open>\<^verbatim>\<open>s.includes(t)\<close>: \<open>t\<close> occurs in \<open>s\<close> as a contiguous run of code units.\<close>

fun includes_str :: "js_string \<Rightarrow> js_string \<Rightarrow> bool" where
  "includes_str [] t = (t = [])"
| "includes_str (c # cs) t = (prefix t (c # cs) \<or> includes_str cs t)"

text \<open>
  \<^verbatim>\<open>Math.ceil(a / b)\<close> for integers \<open>a\<close> and \<open>b\<close>. Dividing by zero gives \<^verbatim>\<open>NaN\<close> (for 0 / 0)
  or an infinity, which \<^verbatim>\<open>Math.ceil\<close> returns as they are.
\<close>

datatype js_number = Num int | PosInfinity | NegInfinity | NaN

definition Math_ceil_div :: "int \<Rightarrow> int \<Rightarrow> js_number" where
  "Math_ceil_div a b =
     (if b = 0 then (if a = 0 then NaN else if 0 < a then PosInfinity else NegInfinity)
      else Num \<lceil>real_of_int a / real_of_int b\<rceil>)"

section \<open>UserService: the mutations\<close>

text \<open>
  Each mutation has two parts. The call runs at once on the state of the service and
  either fails locally or issues one HTTP request; the completion (the \<^verbatim>\<open>tap\<close> and
  \<^verbatim>\<open>catchError\<close> callbacks) runs later, on the state the service has by then, with the
  response of the store and the variables the closure captured. The observable that
  the call returns is taken to be subscribed once, as the component does.
\<close>

definition createUser :: "CreateBody \<Rightarrow> ServiceState \<Rightarrow> http_request \<times> ServiceState" where
  "createUser body s = (POST body, s\<lparr>loadingState := True\<rparr>)"

definition createUser_complete ::
  "User http_response \<Rightarrow> ServiceState \<Rightarrow> (error + User) \<times> ServiceState" where
  "createUser_complete r s =
     (case r of
        Success newUser \<Rightarrow>
          (let currentUsers = usersState s
           in (Inr newUser, s\<lparr>usersState := currentUsers @ [newUser], loadingState := False\<rparr>))
      | Failure e \<Rightarrow> (Inl (HttpErrorResponse e), s\<lparr>loadingState := False\<rparr>))"

text \<open>The spread \<^verbatim>\<open>{ ...originalUsers[userIndex], ...user }\<close>: a key present in the patch wins.\<close>

definition merge :: "User \<Rightarrow> UserPatch \<Rightarrow> User" where
  "merge u p =
     \<lparr> username = (case patch_username p of None \<Rightarrow> username u | Some v \<Rightarrow> v),
       email = (case patch_email p of None \<Rightarrow> email u | Some v \<Rightarrow> v),
       firstName = (case patch_firstName p of None \<Rightarrow> firstName u | Some v \<Rightarrow> v),
       lastName = (case patch_lastName p of None \<Rightarrow> lastName u | Some v \<Rightarrow> v),
       role = (case patch_role p of None \<Rightarrow> role u | Some v \<Rightarrow> v),
       status = (case patch_status p of None \<Rightarrow> status u | Some v \<Rightarrow> v),
       phone = (case patch_phone p of None \<Rightarrow> phone u | Some v \<Rightarrow> v),
       address = (case patch_address p of None \<Rightarrow> address u | Some v \<Rightarrow> v),
       dateOfBirth = (case patch_dateOfBirth p of None \<Rightarrow> dateOfBirth u | Some v \<Rightarrow> v),
       department = (case patch_department p of None \<Rightarrow> department u | Some v \<Rightarrow> v),
       joinDate = (case patch_joinDate p of None \<Rightarrow> joinDate u | Some v \<Rightarrow> v),
       avatar = (case patch_avatar p of None \<Rightarrow> avatar u | Some v \<Rightarrow> v),
       lastActive = (case patch_lastActive p of None \<Rightarrow> lastActive u | Some v \<Rightarrow> v),
       uid = (case patch_id p of None \<Rightarrow> uid u | Some v \<Rightarrow> v) \<rparr>"

text \<open>
  \<^verbatim>\<open>updateUser\<close>. A successful call returns the request and the captured
  \<^verbatim>\<open>originalUsers\<close>. The index written to is in range, since it was found in the list.
\<close>

definition updateUser ::
  "int \<Rightarrow> UserPatch \<Rightarrow> ServiceState \<Rightarrow> (error + http_request \<times> User list) \<times> ServiceState" where
  "updateUser i p s =
     (let s1 = s\<lparr>loadingState := True\<rparr>;
          originalUsers = usersState s1;
          userIndex = findIndex (\<lambda>u. uid u = i) originalUsers
      in if userIndex = - 1
         then (Inl (Error ''User not found''), s1\<lparr>loadingState := False\<rparr>)
         else
           (let updatedUser = merge (originalUsers ! nat userIndex) p;
                optimisticUsers = originalUsers[nat userIndex := updatedUser]
            in (Inr (PUT i updatedUser, originalUsers), s1\<lparr>usersState := optimisticUsers\<rparr>)))"

definition updateUser_complete ::
  "int \<Rightarrow> User list \<Rightarrow> User http_response \<Rightarrow> ServiceState \<Rightarrow> (error + User) \<times> ServiceState" where
  "updateUser_complete i originalUsers r s =
     (case r of
        Success serverUser \<Rightarrow>
          (let currentUsers = usersState s;
               idx = findIndex (\<lambda>u. uid u = i) currentUsers;
               s1 = (if idx \<noteq> - 1
                     then s\<lparr>usersState := currentUsers[nat idx := serverUser]\<rparr>
                     else s)
           in (Inr serverUser, s1\<lparr>loadingState := False\<rparr>))
      | Failure e \<Rightarrow>
          (Inl (HttpErrorResponse e), s\<lparr>usersState := originalUsers, loadingState := False\<rparr>))"

text \<open>\<^verbatim>\<open>deleteUser\<close>. A successful call returns the request and the captured \<^verbatim>\<open>currentUsers\<close>.\<close>

definition deleteUser ::
  "int \<Rightarrow> ServiceState \<Rightarrow> (error + http_request \<times> User list) \<times> ServiceState" where
  "deleteUser i s =
     (let s1 = s\<lparr>loadingState := True\<rparr>;
          currentUsers = usersState s1;
          userIndex = findIndex (\<lambda>u. uid u = i) currentUsers
      in if userIndex = - 1
         then (Inl (Error ''User not found''), s1\<lparr>loadingState := False\<rparr>)
         else
           (let s2 = s1\<lparr>lastDeletedUser :=
                         Some \<lparr>user = currentUsers ! nat userIndex, index = nat userIndex\<rparr>\<rparr>;
                optimisticUsers = filter (\<lambda>u. uid u \<noteq> i) currentUsers
            in (Inr (DELETE i, currentUsers), s2\<lparr>usersState := optimisticUsers\<rparr>)))"

definition deleteUser_complete ::
  "User list \<Rightarrow> unit http_response \<Rightarrow> ServiceState \<Rightarrow> (error + unit) \<times> ServiceState" where
  "deleteUser_complete currentUsers r s =
     (case r of
        Success _ \<Rightarrow> (Inr (), s\<lparr>loadingState := False\<rparr>)
      | Failure e \<Rightarrow>
          (Inl (HttpErrorResponse e),
           s\<lparr>usersState := currentUsers, lastDeletedUser := None, loadingState := False\<rparr>))"

text \<open>\<^verbatim>\<open>undoDelete\<close>: \<open>None\<close> is the \<^verbatim>\<open>null\<close> it returns when there is nothing to undo.\<close>

definition undoDelete :: "ServiceState \<Rightarrow> http_request option \<times> ServiceState" where
  "undoDelete s =
     (case lastDeletedUser s of
        None \<Rightarrow> (None, s)
      | Some d \<Rightarrow>
          (let (req, s1) = createUser (WithId (user d)) (s\<lparr>lastDeletedUser := None\<rparr>)
           in (Some req, s1)))"

section \<open>UserService: the queries\<close>

text \<open>
  \<^verbatim>\<open>filterUsers\<close>. A criterion is applied when its value is truthy: a string when it is
  present and not empty, a role or a status when it is present.

  \<^verbatim>\<open>String.prototype.toLowerCase\<close> is a built-in of JavaScript: the case mapping of
  Unicode that it applies is not part of the repository. It is the first parameter of
  \<open>filterUsers\<close>, a function on strings of code units; the definitions assume nothing
  about it, and a theorem states what it uses of it.
\<close>

definition filterUsers ::
  "(js_string \<Rightarrow> js_string) \<Rightarrow> UserFilter \<Rightarrow> ServiceState \<Rightarrow> User list" where
  "filterUsers toLowerCase f s =
     (let filtered0 = usersState s;
          filtered1 =
            (case searchTerm f of
               None \<Rightarrow> filtered0
             | Some t \<Rightarrow>
                 if t = [] then filtered0
                 else
                   (let searchLower = toLowerCase t
                    in filter (\<lambda>u. includes_str (toLowerCase (firstName u)) searchLower \<or>
                                   includes_str (toLowerCase (lastName u)) searchLower \<or>
                                   includes_str (toLowerCase (email u)) searchLower \<or>
                                   includes_str (toLowerCase (username u)) searchLower)
                         filtered0));
          filtered2 =
            (case filter_role f of
               None \<Rightarrow> filtered1
             | Some r \<Rightarrow> filter (\<lambda>u. role u = r) filtered1);
          filtered3 =
            (case filter_status f of
               None \<Rightarrow> filtered2
             | Some st \<Rightarrow> filter (\<lambda>u. status u = st) filtered2);
          filtered4 =
            (case filter_department f of
               None \<Rightarrow> filtered3
             | Some d \<Rightarrow>
                 if d = [] then filtered3
                 else filter (\<lambda>u. department u = Some d) filtered3)
      in filtered4)"

record 'a PaginatedResponse =
  data :: "'a list"
  total :: int
  page :: int
  pageSize :: int
  totalPages :: js_number

text \<open>
  \<^verbatim>\<open>getPaginatedUsers\<close>, for one emission of the users: the response computed from the
  state at that moment. The page and the page size are integers, and both are given
  (the defaults of the source are 1 and 10). The first parameter is the
  \<^verbatim>\<open>toLowerCase\<close> that \<open>filterUsers\<close> uses.
\<close>

definition getPaginatedUsers ::
  "(js_string \<Rightarrow> js_string) \<Rightarrow> int \<Rightarrow> int \<Rightarrow> UserFilter option \<Rightarrow> ServiceState \<Rightarrow>
   User PaginatedResponse" where
  "getPaginatedUsers toLowerCase pg sz fo s =
     (let users = usersState s;
          filtered = (case fo of Some f \<Rightarrow> filterUsers toLowerCase f s | None \<Rightarrow> users);
          tot = int (length filtered);
          pages = Math_ceil_div tot sz;
          start = (pg - 1) * sz;
          end = start + sz;
          dat = slice filtered start end
      in \<lparr>data = dat, total = tot, page = pg, pageSize = sz, totalPages = pages\<rparr>)"

section \<open>Operations run one after the other\<close>

text \<open>
  A mutation whose request is answered before anything else happens: the call,
  followed at once by its completion with the store's response.
\<close>

definition create_seq ::
  "CreateBody \<Rightarrow> User http_response \<Rightarrow> ServiceState \<Rightarrow> (error + User) \<times> ServiceState" where
  "create_seq body r s = (let (req, s1) = createUser body s in createUser_complete r s1)"

definition update_seq ::
  "int \<Rightarrow> UserPatch \<Rightarrow> User http_response \<Rightarrow> ServiceState \<Rightarrow> (error + User) \<times> ServiceState" where
  "update_seq i p r s =
     (case updateUser i p s of
        (Inl e, s1) \<Rightarrow> (Inl e, s1)
      | (Inr (req, originalUsers), s1) \<Rightarrow> updateUser_complete i originalUsers r s1)"

definition delete_seq ::
  "int \<Rightarrow> unit http_response \<Rightarrow> ServiceState \<Rightarrow> (error + unit) \<times> ServiceState" where
  "delete_seq i r s =
     (case deleteUser i s of
        (Inl e, s1) \<Rightarrow> (Inl e, s1)
      | (Inr (req, currentUsers), s1) \<Rightarrow> deleteUser_complete currentUsers r s1)"

definition undo_seq ::
  "User http_response \<Rightarrow> ServiceState \<Rightarrow> (error + User) option \<times> ServiceState" where
  "undo_seq r s =
     (case undoDelete s of
        (None, s1) \<Rightarrow> (None, s1)
      | (Some req, s1) \<Rightarrow> (let (res, s2) = createUser_complete r s1 in (Some res, s2)))"

datatype op =
    Create CreateBody "User http_response"
  | Update int UserPatch "User http_response"
  | Delete int "unit http_response"
  | UndoDelete "User http_response"

fun exec :: "op \<Rightarrow> ServiceState \<Rightarrow> ServiceState" where
  "exec (Create body r) s = snd (create_seq body r s)"
| "exec (Update i p r) s = snd (update_seq i p r s)"
| "exec (Delete i r) s = snd (delete_seq i r s)"
| "exec (UndoDelete r) s = snd (undo_seq r s)"

fun run :: "op list \<Rightarrow> ServiceState \<Rightarrow> ServiceState" where
  "run [] s = s"
| "run (x # xs) s = run xs (exec x s)"

section \<open>Uniqueness of ids: the operations that keep it\<close>

text \<open>
  What a run of operations needs for the ids of the cache to stay distinct: an
  acknowledged create (also the one that \<open>undoDelete\<close> issues) returns a record whose id
  is not in the cache at that moment, the patch of an update does not change the id,
  and an acknowledged update returns a record with the id that was updated.
\<close>

fun op_ok :: "op \<Rightarrow> ServiceState \<Rightarrow> bool" where
  "op_ok (Create body (Success u)) s = (uid u \<notin> set (map uid (usersState s)))"
| "op_ok (Create body (Failure e)) s = True"
| "op_ok (Update i p r) s =
     ((patch_id p = None \<or> patch_id p = Some i) \<and>
      (case r of Success serverUser \<Rightarrow> uid serverUser = i | Failure e \<Rightarrow> True))"
| "op_ok (Delete i r) s = True"
| "op_ok (UndoDelete (Success u)) s =
     (lastDeletedUser s = None \<or> uid u \<notin> set (map uid (usersState s)))"
| "op_ok (UndoDelete (Failure e)) s = True"

fun admissible :: "op list \<Rightarrow> ServiceState \<Rightarrow> bool" where
  "admissible [] s = True"
| "admissible (x # xs) s = (op_ok x s \<and> admissible xs (exec x s))"

definition unique_ids :: "ServiceState \<Rightarrow> bool" where
  "unique_ids s = distinct (map uid (usersState s))"

section \<open>The contract of the Remote Store for a create\<close>

text \<open>
  Modelled from the spec: the Remote Store, which is outside the repository. Its
  contract for \<^verbatim>\<open>POST /users\<close> is that the response is the record that was posted, with
  the id the store gave it: the fields other than the id are those of the body.
\<close>

definition store_creates :: "http_request \<Rightarrow> User \<Rightarrow> bool" where
  "store_creates req r =
     (case req of
        POST (WithoutId d) \<Rightarrow> UserData.truncate r = d
      | POST (WithId u) \<Rightarrow> UserData.truncate r = UserData.truncate u
      | _ \<Rightarrow> False)"

section \<open>Filter, as the specification words it\<close>







section \<open>Sample data\<close>

text \<open>The JavaScript string of an ASCII text: one code unit for each character.\<close>

definition js :: "string \<Rightarrow> js_string" where
  "js t = map (\<lambda>c. word_of_nat (of_char c)) t"

text \<open>
  \<^verbatim>\<open>String.prototype.toLowerCase\<close> on the strings whose code units are all below 0x100
  (Basic Latin and Latin-1 Supplement): the capital letters there are U+0041 to U+005A
  and U+00C0 to U+00DE without U+00D7, and the small letter of each is 0x20 above it.
  The examples apply it to such strings only.
\<close>

definition latin1_toLowerCase :: "js_string \<Rightarrow> js_string" where
  "latin1_toLowerCase t =
     map (\<lambda>c. if (0x41 \<le> c \<and> c \<le> 0x5A) \<or> (0xC0 \<le> c \<and> c \<le> 0xDE \<and> c \<noteq> 0xD7)
              then c + 0x20 else c) t"

definition sample_user :: "int \<Rightarrow> string \<Rightarrow> string option \<Rightarrow> User" where
  "sample_user i n dep =
     \<lparr> username = js n, email = js (n @ ''@example.com''), firstName = js n,
       lastName = js ''Doe'', role = user_role, status = active, phone = None,
       address = None, dateOfBirth = None, department = map_option js dep, joinDate = None,
       avatar = None, lastActive = None, uid = i \<rparr>"

definition sample_state :: ServiceState where
  "sample_state =
     \<lparr> usersState = [sample_user 1 ''john'' (Some ''IT''), sample_user 2 ''jane'' (Some ''HR''),
                     sample_user 3 ''mike'' None],
       loadingState = False, lastDeletedUser = None \<rparr>"

definition empty_patch :: UserPatch where
  "empty_patch =
     \<lparr> patch_id = None, patch_username = None, patch_email = None, patch_firstName = None,
       patch_lastName = None, patch_role = None, patch_status = None, patch_phone = None,
       patch_address = None, patch_dateOfBirth = None, patch_department = None,
       patch_joinDate = None, patch_avatar = None, patch_lastActive = None \<rparr>"

definition sample_patch :: UserPatch where
  "sample_patch =
     empty_patch\<lparr>patch_firstName := Some (js ''Janet''), patch_phone := Some None\<rparr>"



definition many_users :: ServiceState where
  "many_users =
     \<lparr> usersState = replicate 25 (sample_user 1 ''john'' None),
       loadingState = False, lastDeletedUser = None \<rparr>"

lemmas sample_defs = js_def sample_user_def sample_state_def empty_patch_def sample_patch_def

section \<open>Facts about findIndex\<close>

lemma findIndexFrom_takeWhile:
  "findIndexFrom k P xs =
     (if \<exists>x\<in>set xs. P x then int (k + length (takeWhile (\<lambda>x. \<not> P x) xs)) else - 1)"
  by (induction xs arbitrary: k) auto

lemma findIndex_takeWhile:
  "findIndex P xs =
     (if \<exists>x\<in>set xs. P x then int (length (takeWhile (\<lambda>x. \<not> P x) xs)) else - 1)"
  by (simp add: findIndex_def findIndexFrom_takeWhile)

lemma findIndex_absent: "findIndex P xs = - 1 \<longleftrightarrow> (\<forall>x\<in>set xs. \<not> P x)"
  by (simp add: findIndex_takeWhile)

lemma findIndex_present:
  assumes "\<exists>x\<in>set xs. P x"
  shows "0 \<le> findIndex P xs" and "nat (findIndex P xs) < length xs"
    and "P (xs ! nat (findIndex P xs))"
proof -
  have eq: "findIndex P xs = int (length (takeWhile (\<lambda>x. \<not> P x) xs))"
    using assms by (simp add: findIndex_takeWhile)
  show "0 \<le> findIndex P xs" by (simp add: eq)
  have lt: "length (takeWhile (\<lambda>x. \<not> P x) xs) < length xs"
    using assms by (induction xs) auto
  then show "nat (findIndex P xs) < length xs" by (simp add: eq)
  from nth_length_takeWhile [OF lt] show "P (xs ! nat (findIndex P xs))" by (simp add: eq)
qed

section \<open>Rollback of a failed update\<close>

text \<open>
  C1. When the record with the id is in the cache and the store answers the PUT with a
  failure, the update returns that failure and leaves the list of users exactly as it
  was when the update was called, although the merged record had been written into it
  in between. The call captures the list it found, and the failure callback writes
  that captured list back whatever the state is by then.
\<close>

theorem update_failure_restores_snapshot:
  assumes "\<exists>u\<in>set (usersState s). uid u = i"
  shows "fst (update_seq i p (Failure e) s) = Inl (HttpErrorResponse e)
         \<and> usersState (snd (update_seq i p (Failure e) s)) = usersState s
         \<and> (\<exists>req s1. updateUser i p s = (Inr (req, usersState s), s1)
              \<and> usersState s1 =
                  (usersState s)[nat (findIndex (\<lambda>u. uid u = i) (usersState s)) :=
                     merge (usersState s ! nat (findIndex (\<lambda>u. uid u = i) (usersState s))) p]
              \<and> (\<forall>s2. updateUser_complete i (usersState s) (Failure e) s2 =
                     (Inl (HttpErrorResponse e),
                      s2\<lparr>usersState := usersState s, loadingState := False\<rparr>)))"
proof -
  from assms have "findIndex (\<lambda>u. uid u = i) (usersState s) \<noteq> - 1"
    by (simp add: findIndex_absent)
  then show ?thesis
    by (simp add: update_seq_def updateUser_def updateUser_complete_def Let_def)
qed

theorem update_failure_restores_snapshot_witness:
  "(\<exists>u\<in>set (usersState sample_state). uid u = 2)
   \<and> fst (update_seq 2 sample_patch (Failure 500) sample_state) = Inl (HttpErrorResponse 500)
   \<and> usersState (snd (update_seq 2 sample_patch (Failure 500) sample_state)) =
       usersState sample_state
   \<and> usersState (snd (updateUser 2 sample_patch sample_state)) \<noteq> usersState sample_state"
proof -
  have h: "\<exists>u\<in>set (usersState sample_state). uid u = 2"
    by (simp add: sample_defs)
  have "usersState (snd (updateUser 2 sample_patch sample_state)) \<noteq> usersState sample_state"
    by (simp add: sample_defs updateUser_def findIndex_def merge_def Let_def)
  with h update_failure_restores_snapshot [OF h, of sample_patch 500] show ?thesis
    by simp
qed

section \<open>Rollback of a failed delete\<close>

text \<open>
  C2. When the record with the id is in the cache and the store answers the DELETE with
  a failure, the delete returns that failure, the list of users is again the list the
  call found (so the record is back at the index it had), and the pending deletion is
  cleared. In between the record had been removed and recorded as the pending deletion.
\<close>

theorem delete_failure_restores_record:
  assumes "\<exists>u\<in>set (usersState s). uid u = i"
  shows "fst (delete_seq i (Failure e) s) = Inl (HttpErrorResponse e)
         \<and> usersState (snd (delete_seq i (Failure e) s)) = usersState s
         \<and> lastDeletedUser (snd (delete_seq i (Failure e) s)) = None
         \<and> (\<exists>req s1. deleteUser i s = (Inr (req, usersState s), s1)
              \<and> usersState s1 = filter (\<lambda>u. uid u \<noteq> i) (usersState s)
              \<and> lastDeletedUser s1 =
                  Some \<lparr>user = usersState s ! nat (findIndex (\<lambda>u. uid u = i) (usersState s)),
                        index = nat (findIndex (\<lambda>u. uid u = i) (usersState s))\<rparr>
              \<and> (\<forall>s2. deleteUser_complete (usersState s) (Failure e) s2 =
                     (Inl (HttpErrorResponse e),
                      s2\<lparr>usersState := usersState s, lastDeletedUser := None,
                         loadingState := False\<rparr>)))"
proof -
  from assms have "findIndex (\<lambda>u. uid u = i) (usersState s) \<noteq> - 1"
    by (simp add: findIndex_absent)
  then show ?thesis
    by (simp add: delete_seq_def deleteUser_def deleteUser_complete_def Let_def)
qed

theorem delete_failure_restores_record_witness:
  "(\<exists>u\<in>set (usersState sample_state). uid u = 2)
   \<and> fst (delete_seq 2 (Failure 500) sample_state) = Inl (HttpErrorResponse 500)
   \<and> usersState (snd (delete_seq 2 (Failure 500) sample_state)) ! 1 =
       sample_user 2 ''jane'' (Some ''HR'')
   \<and> lastDeletedUser (snd (delete_seq 2 (Failure 500) sample_state)) = None
   \<and> lastDeletedUser (snd (deleteUser 2 sample_state)) \<noteq> None"
proof -
  have h: "\<exists>u\<in>set (usersState sample_state). uid u = 2"
    by (simp add: sample_defs)
  have "lastDeletedUser (snd (deleteUser 2 sample_state)) \<noteq> None"
    by (simp add: sample_defs deleteUser_def findIndex_def Let_def)
  moreover have "usersState sample_state ! 1 = sample_user 2 ''jane'' (Some ''HR'')"
    by (simp add: sample_state_def)
  ultimately show ?thesis
    using h delete_failure_restores_record [OF h, of 500] by simp
qed

section \<open>An id that is not in the cache\<close>

text \<open>
  C6. When no record of the cache has the id, \<open>updateUser\<close> and \<open>deleteUser\<close> both
  return the error "User not found" and no request; the list of users and the pending
  deletion are left as they were (only the loading flag is written, to false).
\<close>

theorem missing_id_fails_locally:
  assumes "\<forall>u\<in>set (usersState s). uid u \<noteq> i"
  shows "updateUser i p s = (Inl (Error ''User not found''), s\<lparr>loadingState := False\<rparr>)
         \<and> deleteUser i s = (Inl (Error ''User not found''), s\<lparr>loadingState := False\<rparr>)"
proof -
  from assms have "findIndex (\<lambda>u. uid u = i) (usersState s) = - 1"
    by (simp add: findIndex_absent)
  then show ?thesis
    by (simp add: updateUser_def deleteUser_def Let_def)
qed

theorem missing_id_fails_locally_witness:
  "9999 \<notin> set (map uid (usersState sample_state))
   \<and> updateUser 9999 sample_patch sample_state = (Inl (Error ''User not found''), sample_state)
   \<and> deleteUser 9999 sample_state = (Inl (Error ''User not found''), sample_state)"
proof -
  have h: "\<forall>u\<in>set (usersState sample_state). uid u \<noteq> 9999"
    by (simp add: sample_defs)
  have "sample_state\<lparr>loadingState := False\<rparr> = sample_state"
    by (simp add: sample_state_def)
  with h missing_id_fails_locally [OF h, of sample_patch] show ?thesis
    by auto
qed

section \<open>Uniqueness of ids\<close>

lemma map_update_same:
  assumes "n < length xs" and "f v = f (xs ! n)"
  shows "map f (xs[n := v]) = map f xs"
proof -
  have "map f (xs[n := v]) = (map f xs)[n := (map f xs) ! n]"
    using assms by (simp add: map_update)
  then show ?thesis by simp
qed

lemma merge_uid:
  assumes "patch_id p = None \<or> patch_id p = Some i" and "uid u = i"
  shows "uid (merge u p) = i"
  using assms by (auto simp: merge_def)

lemma create_keeps_unique:
  assumes "unique_ids s" and "op_ok (Create body r) s"
  shows "unique_ids (exec (Create body r) s)"
  using assms
  by (cases r) (auto simp: unique_ids_def create_seq_def createUser_def createUser_complete_def)

lemma update_keeps_unique:
  assumes "unique_ids s" and "op_ok (Update i p r) s"
  shows "unique_ids (exec (Update i p r) s)"
proof (cases "\<exists>u\<in>set (usersState s). uid u = i")
  case False
  then have "findIndex (\<lambda>u. uid u = i) (usersState s) = - 1"
    by (simp add: findIndex_absent)
  then show ?thesis
    using assms(1) by (simp add: update_seq_def updateUser_def unique_ids_def Let_def)
next
  case True
  let ?xs = "usersState s"
  let ?n = "nat (findIndex (\<lambda>u. uid u = i) ?xs)"
  let ?opt = "?xs[?n := merge (?xs ! ?n) p]"
  note fp = findIndex_present [OF True]
  have ne: "findIndex (\<lambda>u. uid u = i) ?xs \<noteq> - 1"
    using True by (simp add: findIndex_absent)
  have m: "uid (merge (?xs ! ?n) p) = i"
    using assms(2) fp(3) by (intro merge_uid) auto
  have opt_ids: "map uid ?opt = map uid ?xs"
    using fp m by (intro map_update_same) auto
  show ?thesis
  proof (cases r)
    case (Failure e)
    then show ?thesis
      using assms(1) ne
      by (simp add: update_seq_def updateUser_def updateUser_complete_def unique_ids_def Let_def)
  next
    case (Success serverUser)
    with assms(2) have su: "uid serverUser = i" by simp
    have ex: "\<exists>u\<in>set ?opt. uid u = i"
      using fp(2) m by (meson set_update_memI)
    note fq = findIndex_present [OF ex]
    have ne2: "findIndex (\<lambda>u. uid u = i) ?opt \<noteq> - 1"
      using ex by (simp add: findIndex_absent)
    let ?k = "nat (findIndex (\<lambda>u. uid u = i) ?opt)"
    have "map uid (?opt[?k := serverUser]) = map uid ?opt"
      using fq su by (intro map_update_same) auto
    with opt_ids have "map uid (?opt[?k := serverUser]) = map uid ?xs" by simp
    then show ?thesis
      using assms(1) ne ne2 Success
      by (simp add: update_seq_def updateUser_def updateUser_complete_def unique_ids_def Let_def)
  qed
qed

lemma delete_keeps_unique:
  assumes "unique_ids s"
  shows "unique_ids (exec (Delete i r) s)"
proof (cases "findIndex (\<lambda>u. uid u = i) (usersState s) = - 1")
  case True
  then show ?thesis
    using assms by (simp add: delete_seq_def deleteUser_def unique_ids_def Let_def)
next
  case False
  then show ?thesis
    using assms
    by (cases r)
      (simp_all add: delete_seq_def deleteUser_def deleteUser_complete_def unique_ids_def
         Let_def distinct_map_filter)
qed

lemma undo_keeps_unique:
  assumes "unique_ids s" and "op_ok (UndoDelete r) s"
  shows "unique_ids (exec (UndoDelete r) s)"
  using assms
  by (cases r; cases "lastDeletedUser s")
    (auto simp: unique_ids_def undo_seq_def undoDelete_def createUser_def
       createUser_complete_def)

lemma exec_keeps_unique:
  assumes "unique_ids s" and "op_ok x s"
  shows "unique_ids (exec x s)"
proof (cases x)
  case (Create body r)
  with assms show ?thesis using create_keeps_unique by blast
next
  case (Update i p r)
  with assms show ?thesis using update_keeps_unique by blast
next
  case (Delete i r)
  with assms show ?thesis using delete_keeps_unique by blast
next
  case (UndoDelete r)
  with assms show ?thesis using undo_keeps_unique by blast
qed

lemma run_keeps_unique:
  assumes "unique_ids s" and "admissible ops s"
  shows "unique_ids (run ops s)"
  using assms
proof (induction ops arbitrary: s)
  case Nil
  then show ?case by simp
next
  case (Cons x xs)
  then show ?case by (simp add: exec_keeps_unique)
qed

text \<open>
  C3, as stated, fails: nothing in \<open>createUser\<close> compares the id of the record the
  store returns with the ids of the cache. From a cache with the ids 1, 2, 3, one
  acknowledged create whose response carries the id 1 leaves two records with the id 1.
\<close>

theorem unique_ids_counterexample:
  "distinct (map uid (usersState sample_state))
   \<and> \<not> distinct (map uid (usersState
         (run [Create (WithoutId (UserData.truncate (sample_user 0 ''dup'' None)))
                 (Success (sample_user 1 ''dup'' None))] sample_state)))"
  by (simp add: sample_defs create_seq_def createUser_def createUser_complete_def)

text \<open>
  The two conditions on updates are needed as well: a patch that carries another
  record's id, and an acknowledged update whose response carries another record's id,
  each leave two records with the same id.
\<close>

lemma update_patch_id_duplicates:
  "\<not> distinct (map uid (usersState
       (run [Update 2 (empty_patch\<lparr>patch_id := Some 1\<rparr>)
               (Success (sample_user 2 ''jane'' (Some ''HR'')))] sample_state)))"
  by (simp add: sample_defs update_seq_def updateUser_def updateUser_complete_def
      findIndex_def merge_def Let_def)

lemma update_response_id_duplicates:
  "\<not> distinct (map uid (usersState
       (run [Update 2 empty_patch (Success (sample_user 1 ''jane'' (Some ''HR'')))]
          sample_state)))"
  by (simp add: sample_defs update_seq_def updateUser_def updateUser_complete_def
      findIndex_def merge_def Let_def)

text \<open>
  C3, amended. From a cache whose records have pairwise distinct ids, every run of
  create, update, delete and undo operations, each answered before the next starts,
  ends in a cache whose records have pairwise distinct ids, provided the run is
  admissible: every acknowledged create (also the re-create of an undo) returns an id
  that is not in the cache at that moment, no patch changes the id, and every
  acknowledged update returns the id that was updated.
\<close>

theorem unique_ids_preserved:
  assumes "distinct (map uid (usersState s))" and "admissible ops s"
  shows "distinct (map uid (usersState (run ops s)))"
  using run_keeps_unique [of s ops] assms by (simp add: unique_ids_def)

theorem unique_ids_preserved_witness:
  "distinct (map uid (usersState sample_state))
   \<and> admissible
       [Delete 2 (Success ()),
        UndoDelete (Success (sample_user 4 ''jane'' (Some ''HR''))),
        Update 1 sample_patch (Success (sample_user 1 ''johnny'' (Some ''IT''))),
        Create (WithoutId (UserData.truncate (sample_user 0 ''new'' None)))
          (Success (sample_user 5 ''new'' None)),
        Delete 3 (Failure 500)] sample_state
   \<and> distinct (map uid (usersState (run
       [Delete 2 (Success ()),
        UndoDelete (Success (sample_user 4 ''jane'' (Some ''HR''))),
        Update 1 sample_patch (Success (sample_user 1 ''johnny'' (Some ''IT''))),
        Create (WithoutId (UserData.truncate (sample_user 0 ''new'' None)))
          (Success (sample_user 5 ''new'' None)),
        Delete 3 (Failure 500)] sample_state)))"
proof -
  let ?ops = "[Delete 2 (Success ()),
        UndoDelete (Success (sample_user 4 ''jane'' (Some ''HR''))),
        Update 1 sample_patch (Success (sample_user 1 ''johnny'' (Some ''IT''))),
        Create (WithoutId (UserData.truncate (sample_user 0 ''new'' None)))
          (Success (sample_user 5 ''new'' None)),
        Delete 3 (Failure 500)]"
  have d: "distinct (map uid (usersState sample_state))"
    by (simp add: sample_defs)
  have a: "admissible ?ops sample_state"
    by (simp add: sample_defs delete_seq_def deleteUser_def deleteUser_complete_def
        undo_seq_def undoDelete_def createUser_def createUser_complete_def
        update_seq_def updateUser_def updateUser_complete_def create_seq_def
        findIndex_def merge_def Let_def)
  from d a unique_ids_preserved [OF d a] show ?thesis by simp
qed

section \<open>Delete and undo\<close>

lemma first_match_filter:
  assumes "\<exists>x\<in>set xs. P x" and "\<forall>x. P x \<longrightarrow> Q x"
  shows "filter Q xs ! nat (findIndex P (filter Q xs)) = xs ! nat (findIndex P xs)"
proof -
  have "filter Q xs ! length (takeWhile (\<lambda>x. \<not> P x) (filter Q xs)) =
        xs ! length (takeWhile (\<lambda>x. \<not> P x) xs)"
    using assms by (induction xs) auto
  moreover have "\<exists>x\<in>set (filter Q xs). P x"
    using assms by auto
  ultimately show ?thesis
    using assms(1) by (simp add: findIndex_takeWhile)
qed

lemma delete_ack:
  assumes "\<exists>u\<in>set (usersState s). uid u = i"
  shows "delete_seq i (Success ()) s =
           (Inr (),
            s\<lparr>lastDeletedUser :=
                 Some \<lparr>user = usersState s ! nat (findIndex (\<lambda>u. uid u = i) (usersState s)),
                       index = nat (findIndex (\<lambda>u. uid u = i) (usersState s))\<rparr>,
              usersState := filter (\<lambda>u. uid u \<noteq> i) (usersState s),
              loadingState := False\<rparr>)"
proof -
  from assms have "findIndex (\<lambda>u. uid u = i) (usersState s) \<noteq> - 1"
    by (simp add: findIndex_absent)
  then show ?thesis
    by (simp add: delete_seq_def deleteUser_def deleteUser_complete_def Let_def)
qed

text \<open>
  C4. With records of the ids \<open>a\<close> and \<open>b\<close> in the cache, after the acknowledged deletes
  of \<open>a\<close> and then of \<open>b\<close>, \<open>undoDelete\<close> issues one request, the POST of the record that
  had the id \<open>b\<close>; when it is acknowledged the cache is the original list without the
  records of \<open>a\<close> and \<open>b\<close>, followed by the record the store returned. The next
  \<open>undoDelete\<close>, before the store answers or after whatever it answers, returns \<^verbatim>\<open>null\<close>
  and leaves the state as it is.
\<close>

theorem single_slot_undo:
  assumes a: "\<exists>u\<in>set (usersState s). uid u = a"
    and b: "\<exists>u\<in>set (usersState s). uid u = b"
    and ab: "a \<noteq> b"
  shows "let userB = usersState s ! nat (findIndex (\<lambda>u. uid u = b) (usersState s));
             (resA, s1) = delete_seq a (Success ()) s;
             (resB, s2) = delete_seq b (Success ()) s1;
             (req, s3) = undoDelete s2
         in resA = Inr () \<and> resB = Inr ()
            \<and> req = Some (POST (WithId userB))
            \<and> undoDelete s3 = (None, s3)
            \<and> (\<forall>r. usersState (snd (createUser_complete (Success r) s3)) =
                     filter (\<lambda>u. uid u \<noteq> a \<and> uid u \<noteq> b) (usersState s) @ [r])
            \<and> (\<forall>r. undoDelete (snd (createUser_complete r s3)) =
                     (None, snd (createUser_complete r s3)))"
proof -
  obtain s1 where dA: "delete_seq a (Success ()) s = (Inr (), s1)"
    and xs1: "usersState s1 = filter (\<lambda>u. uid u \<noteq> a) (usersState s)"
    using delete_ack [OF a] by simp
  have b1: "\<exists>u\<in>set (usersState s1). uid u = b"
    using b ab by (auto simp: xs1)
  obtain s2 where dB: "delete_seq b (Success ()) s1 = (Inr (), s2)"
    and xs2: "usersState s2 = filter (\<lambda>u. uid u \<noteq> b) (usersState s1)"
    and l2: "lastDeletedUser s2 =
               Some \<lparr>user = usersState s1 ! nat (findIndex (\<lambda>u. uid u = b) (usersState s1)),
                     index = nat (findIndex (\<lambda>u. uid u = b) (usersState s1))\<rparr>"
    using delete_ack [OF b1] by simp
  have same: "usersState s1 ! nat (findIndex (\<lambda>u. uid u = b) (usersState s1)) =
              usersState s ! nat (findIndex (\<lambda>u. uid u = b) (usersState s))"
    unfolding xs1 using b ab by (intro first_match_filter) auto
  have both: "usersState s2 = filter (\<lambda>u. uid u \<noteq> a \<and> uid u \<noteq> b) (usersState s)"
    by (simp add: xs2 xs1 conj_commute)
  show ?thesis
    by (simp add: dA dB l2 same both undoDelete_def createUser_def
        createUser_complete_def Let_def split: http_response.split)
qed

theorem single_slot_undo_witness:
  "(\<exists>u\<in>set (usersState sample_state). uid u = 1)
   \<and> (\<exists>u\<in>set (usersState sample_state). uid u = 3)
   \<and> (1 :: int) \<noteq> 3
   \<and> fst (undoDelete (snd (delete_seq 3 (Success ())
            (snd (delete_seq 1 (Success ()) sample_state))))) =
       Some (POST (WithId (sample_user 3 ''mike'' None)))
   \<and> usersState (snd (undo_seq (Success (sample_user 4 ''mike'' None))
        (snd (delete_seq 3 (Success ()) (snd (delete_seq 1 (Success ()) sample_state)))))) =
       [sample_user 2 ''jane'' (Some ''HR''), sample_user 4 ''mike'' None]
   \<and> fst (undo_seq (Success (sample_user 5 ''mike'' None))
        (snd (undo_seq (Success (sample_user 4 ''mike'' None))
          (snd (delete_seq 3 (Success ()) (snd (delete_seq 1 (Success ()) sample_state))))))) =
       None"
proof -
  have h1: "\<exists>u\<in>set (usersState sample_state). uid u = 1"
    by (simp add: sample_defs)
  have h3: "\<exists>u\<in>set (usersState sample_state). uid u = 3"
    by (simp add: sample_defs)
  have ne: "(1 :: int) \<noteq> 3" by simp
  have u3: "usersState sample_state ! nat (findIndex (\<lambda>u. uid u = 3) (usersState sample_state)) =
            sample_user 3 ''mike'' None"
    by (simp add: sample_defs findIndex_def)
  have rest: "filter (\<lambda>u. uid u \<noteq> 1 \<and> uid u \<noteq> 3) (usersState sample_state) =
              [sample_user 2 ''jane'' (Some ''HR'')]"
    by (simp add: sample_defs)
  from single_slot_undo [OF h1 h3 ne] h1 h3 show ?thesis
    by (simp add: Let_def split_beta u3 rest undo_seq_def)
qed

text \<open>
  C5. With a record of the id in the cache, after its acknowledged delete \<open>undoDelete\<close>
  issues a request; when the store acknowledges it with a record that has the posted
  fields (whatever id it gives), that record is appended to the cache, so the last
  record of the cache has the fields, other than the id, of the deleted one, and the
  pending deletion is empty. When the store fails the request, the failure is returned,
  the record stays out of the cache and the pending deletion is empty as well.
\<close>

theorem undo_roundtrip:
  assumes "\<exists>u\<in>set (usersState s). uid u = i"
  shows "let deleted = usersState s ! nat (findIndex (\<lambda>u. uid u = i) (usersState s));
             s1 = snd (delete_seq i (Success ()) s);
             (req, s2) = undoDelete s1
         in (\<exists>q. req = Some q \<and>
               (\<forall>r. store_creates q r \<longrightarrow>
                  (let s3 = snd (createUser_complete (Success r) s2)
                   in fst (createUser_complete (Success r) s2) = Inr r
                      \<and> usersState s3 = filter (\<lambda>u. uid u \<noteq> i) (usersState s) @ [r]
                      \<and> UserData.truncate (last (usersState s3)) = UserData.truncate deleted
                      \<and> lastDeletedUser s3 = None)))
            \<and> (\<forall>e. fst (createUser_complete (Failure e) s2) = Inl (HttpErrorResponse e)
                  \<and> usersState (snd (createUser_complete (Failure e) s2)) =
                      filter (\<lambda>u. uid u \<noteq> i) (usersState s)
                  \<and> lastDeletedUser (snd (createUser_complete (Failure e) s2)) = None)"
  by (simp add: delete_ack [OF assms] undoDelete_def createUser_def createUser_complete_def
      store_creates_def Let_def)

theorem undo_roundtrip_witness:
  "(\<exists>u\<in>set (usersState sample_state). uid u = 2)
   \<and> fst (undoDelete (snd (delete_seq 2 (Success ()) sample_state))) =
       Some (POST (WithId (sample_user 2 ''jane'' (Some ''HR''))))
   \<and> store_creates (POST (WithId (sample_user 2 ''jane'' (Some ''HR''))))
       (sample_user 7 ''jane'' (Some ''HR''))
   \<and> usersState (snd (createUser_complete (Success (sample_user 7 ''jane'' (Some ''HR'')))
        (snd (undoDelete (snd (delete_seq 2 (Success ()) sample_state)))))) =
       [sample_user 1 ''john'' (Some ''IT''), sample_user 3 ''mike'' None,
        sample_user 7 ''jane'' (Some ''HR'')]
   \<and> lastDeletedUser (snd (createUser_complete (Success (sample_user 7 ''jane'' (Some ''HR'')))
        (snd (undoDelete (snd (delete_seq 2 (Success ()) sample_state)))))) = None
   \<and> lastDeletedUser (snd (createUser_complete (Failure 500)
        (snd (undoDelete (snd (delete_seq 2 (Success ()) sample_state)))))) = None"
proof -
  let ?s1 = "snd (delete_seq 2 (Success ()) sample_state)"
  let ?r = "sample_user 7 ''jane'' (Some ''HR'')"
  have h: "\<exists>u\<in>set (usersState sample_state). uid u = 2"
    by (simp add: sample_defs)
  have req: "fst (undoDelete ?s1) = Some (POST (WithId (sample_user 2 ''jane'' (Some ''HR''))))"
    by (simp add: sample_defs delete_seq_def deleteUser_def deleteUser_complete_def
        undoDelete_def createUser_def findIndex_def Let_def)
  have sc: "store_creates (POST (WithId (sample_user 2 ''jane'' (Some ''HR'')))) ?r"
    by (simp add: store_creates_def sample_user_def UserData.truncate_def)
  have rest: "filter (\<lambda>u. uid u \<noteq> 2) (usersState sample_state) =
              [sample_user 1 ''john'' (Some ''IT''), sample_user 3 ''mike'' None]"
    by (simp add: sample_defs)
  note T = undo_roundtrip [OF h, unfolded Let_def split_beta]
  from T have fail: "lastDeletedUser (snd (createUser_complete (Failure 500)
                       (snd (undoDelete ?s1)))) = None"
    by blast
  from T req have "\<forall>r. store_creates (POST (WithId (sample_user 2 ''jane'' (Some ''HR'')))) r \<longrightarrow>
      usersState (snd (createUser_complete (Success r) (snd (undoDelete ?s1)))) =
        filter (\<lambda>u. uid u \<noteq> 2) (usersState sample_state) @ [r]
      \<and> lastDeletedUser (snd (createUser_complete (Success r) (snd (undoDelete ?s1)))) = None"
    by simp
  with sc rest have "usersState (snd (createUser_complete (Success ?r) (snd (undoDelete ?s1)))) =
        [sample_user 1 ''john'' (Some ''IT''), sample_user 3 ''mike'' None, ?r]
      \<and> lastDeletedUser (snd (createUser_complete (Success ?r) (snd (undoDelete ?s1)))) = None"
    by simp
  with h req sc fail show ?thesis by blast
qed

section \<open>An update acknowledged after its record has gone\<close>

text \<open>
  C9. When the store acknowledges an update and, at that moment, no record of the
  cache has the id, the completion returns the server's record to the caller and
  changes nothing but the loading flag: the list of users stays as it is, without the
  server's record.
\<close>

theorem update_ack_dropped_when_record_gone:
  assumes "\<forall>u\<in>set (usersState s2). uid u \<noteq> i"
  shows "updateUser_complete i originalUsers (Success serverUser) s2 =
           (Inr serverUser, s2\<lparr>loadingState := False\<rparr>)"
proof -
  from assms have "findIndex (\<lambda>u. uid u = i) (usersState s2) = - 1"
    by (simp add: findIndex_absent)
  then show ?thesis
    by (simp add: updateUser_complete_def Let_def)
qed

theorem update_ack_dropped_when_record_gone_witness:
  "2 \<notin> set (map uid (usersState (snd (delete_seq 2 (Success ())
        (snd (updateUser 2 sample_patch sample_state))))))
   \<and> usersState (snd (updateUser_complete 2 (usersState sample_state)
        (Success (sample_user 2 ''janet'' (Some ''HR'')))
        (snd (delete_seq 2 (Success ()) (snd (updateUser 2 sample_patch sample_state)))))) =
       [sample_user 1 ''john'' (Some ''IT''), sample_user 3 ''mike'' None]"
proof -
  let ?s2 = "snd (delete_seq 2 (Success ()) (snd (updateUser 2 sample_patch sample_state)))"
  have xs: "usersState ?s2 = [sample_user 1 ''john'' (Some ''IT''), sample_user 3 ''mike'' None]"
    by (simp add: sample_defs delete_seq_def deleteUser_def deleteUser_complete_def
        updateUser_def findIndex_def merge_def Let_def)
  have h: "\<forall>u\<in>set (usersState ?s2). uid u \<noteq> 2"
    by (simp add: xs) (simp add: sample_user_def)
  from h xs
    update_ack_dropped_when_record_gone [OF h, of "usersState sample_state"
      "sample_user 2 ''janet'' (Some ''HR'')"]
  show ?thesis by auto
qed

section \<open>What undo sends and what it inserts\<close>

text \<open>
  C10. With a pending deletion, \<open>undoDelete\<close> issues the POST of the captured record as
  it is, id included, and empties the pending deletion; the record that an
  acknowledged create appends at the end of the cache is the one the store returned.
  The captured record is the one \<open>deleteUser\<close> found under the id it was given.
\<close>

theorem undo_posts_captured_record:
  assumes "lastDeletedUser s = Some d"
  shows "undoDelete s =
           (Some (POST (WithId (user d))), s\<lparr>lastDeletedUser := None, loadingState := True\<rparr>)
         \<and> (\<forall>r s2. createUser_complete (Success r) s2 =
               (Inr r, s2\<lparr>usersState := usersState s2 @ [r], loadingState := False\<rparr>))
         \<and> (\<forall>i s0. (\<exists>u\<in>set (usersState s0). uid u = i) \<longrightarrow>
               (\<exists>c. lastDeletedUser (snd (deleteUser i s0)) = Some c
                    \<and> user c = usersState s0 ! nat (findIndex (\<lambda>u. uid u = i) (usersState s0))
                    \<and> uid (user c) = i))"
proof -
  have "\<exists>c. lastDeletedUser (snd (deleteUser i s0)) = Some c
           \<and> user c = usersState s0 ! nat (findIndex (\<lambda>u. uid u = i) (usersState s0))
           \<and> uid (user c) = i"
    if ex: "\<exists>u\<in>set (usersState s0). uid u = i" for i s0
  proof -
    from ex have "findIndex (\<lambda>u. uid u = i) (usersState s0) \<noteq> - 1"
      by (simp add: findIndex_absent)
    then show ?thesis
      using findIndex_present(3) [OF ex] by (simp add: deleteUser_def Let_def)
  qed
  then show ?thesis
    using assms by (simp add: undoDelete_def createUser_def createUser_complete_def)
qed

theorem undo_posts_captured_record_witness:
  "lastDeletedUser (snd (delete_seq 2 (Success ()) sample_state)) =
     Some \<lparr>user = sample_user 2 ''jane'' (Some ''HR''), index = 1\<rparr>
   \<and> fst (undoDelete (snd (delete_seq 2 (Success ()) sample_state))) =
       Some (POST (WithId (sample_user 2 ''jane'' (Some ''HR''))))
   \<and> uid (sample_user 2 ''jane'' (Some ''HR'')) = 2"
proof -
  have h: "lastDeletedUser (snd (delete_seq 2 (Success ()) sample_state)) =
             Some \<lparr>user = sample_user 2 ''jane'' (Some ''HR''), index = 1\<rparr>"
    by (simp add: sample_defs delete_seq_def deleteUser_def deleteUser_complete_def
        findIndex_def Let_def)
  from h undo_posts_captured_record [OF h] show ?thesis
    by (simp add: sample_user_def)
qed

section \<open>Filter\<close>











section \<open>Pagination\<close>

lemma slice_page:
  assumes "0 \<le> start" and "0 \<le> sz"
  shows "slice xs start (start + sz) = take (nat sz) (drop (nat start) xs)"
proof (cases "start < int (length xs)")
  case True
  then have "nat (min (start + sz) (int (length xs)) - start) =
             min (nat sz) (length xs - nat start)"
    using assms by (auto simp: min_def)
  then show ?thesis
    using assms True by (simp add: slice_def Let_def min_def max_def)
next
  case False
  then show ?thesis
    using assms by (simp add: slice_def Let_def min_def)
qed

lemma slice_length:
  assumes "0 \<le> start" and "1 \<le> sz"
  shows "length (take (nat sz) (drop (nat start) xs)) =
         nat (min (start + sz) (int (length xs)) - min start (int (length xs)))"
  using assms by (auto simp: min_def)

text \<open>
  C8. For a page and a page size of at least 1, \<open>getPaginatedUsers\<close> takes the filtered
  list (\<open>filterUsers\<close> when a filter is given, the whole snapshot otherwise) and returns
  its length as the total, the ceiling of total / pageSize as the number of pages, and
  as data the elements at the positions from (page - 1) * pageSize up to, not
  including, page * pageSize, as far as the list goes (none when the list is shorter
  than the start). With 25 filtered records, page 3 of size 10 has 5 records and there
  are 3 pages.
\<close>

theorem pagination:
  assumes "1 \<le> pg" and "1 \<le> sz"
  shows "let filtered =
               (case fo of None \<Rightarrow> usersState s | Some f \<Rightarrow> filterUsers toLowerCase f s);
             r = getPaginatedUsers toLowerCase pg sz fo s
         in total r = int (length filtered)
            \<and> totalPages r = Num \<lceil>real (length filtered) / real_of_int sz\<rceil>
            \<and> data r = take (nat sz) (drop (nat ((pg - 1) * sz)) filtered)
            \<and> (\<forall>k < length (data r). data r ! k = filtered ! (nat ((pg - 1) * sz) + k))
            \<and> length (data r) =
                nat (min (pg * sz) (int (length filtered)) -
                     min ((pg - 1) * sz) (int (length filtered)))
            \<and> (int (length filtered) \<le> (pg - 1) * sz \<longrightarrow> data r = [])
            \<and> page r = pg \<and> pageSize r = sz
            \<and> (length filtered = 25 \<and> pg = 3 \<and> sz = 10 \<longrightarrow>
                 length (data r) = 5 \<and> totalPages r = Num 3)"
proof -
  define filtered where
    "filtered =
       (case fo of None \<Rightarrow> usersState s | Some f \<Rightarrow> filterUsers toLowerCase f s)"
  let ?r = "getPaginatedUsers toLowerCase pg sz fo s"
  let ?page = "take (nat sz) (drop (nat ((pg - 1) * sz)) filtered)"
  have start: "0 \<le> (pg - 1) * sz" using assms by simp
  have d: "data ?r = ?page"
    using slice_page [OF start, of sz filtered] assms
    by (cases fo) (simp_all add: getPaginatedUsers_def Let_def filtered_def)
  have t: "total ?r = int (length filtered)"
    by (cases fo) (simp_all add: getPaginatedUsers_def Let_def filtered_def)
  have tp: "totalPages ?r = Num \<lceil>real (length filtered) / real_of_int sz\<rceil>"
    using assms
    by (cases fo) (simp_all add: getPaginatedUsers_def Let_def filtered_def Math_ceil_div_def)
  have pp: "page ?r = pg \<and> pageSize ?r = sz"
    by (simp add: getPaginatedUsers_def Let_def)
  have len: "length ?page =
             nat (min (pg * sz) (int (length filtered)) -
                  min ((pg - 1) * sz) (int (length filtered)))"
  proof -
    have "pg * sz = (pg - 1) * sz + sz" by (simp add: algebra_simps)
    then show ?thesis using slice_length [OF start assms(2), of filtered] by simp
  qed
  have nth: "\<forall>k < length ?page. ?page ! k = filtered ! (nat ((pg - 1) * sz) + k)"
    by auto
  have out: "int (length filtered) \<le> (pg - 1) * sz \<longrightarrow> ?page = []"
    by auto
  have special: "length filtered = 25 \<and> pg = 3 \<and> sz = 10 \<longrightarrow>
                 length ?page = 5 \<and> Num \<lceil>real (length filtered) / real_of_int sz\<rceil> = Num 3"
    by auto
  show ?thesis
    unfolding Let_def filtered_def [symmetric] d t tp
    using len nth out special pp by blast
qed

theorem pagination_witness:
  "(1 :: int) \<le> 3 \<and> (1 :: int) \<le> 10
   \<and> length (usersState many_users) = 25
   \<and> total (getPaginatedUsers latin1_toLowerCase 3 10 None many_users) = 25
   \<and> length (data (getPaginatedUsers latin1_toLowerCase 3 10 None many_users)) = 5
   \<and> totalPages (getPaginatedUsers latin1_toLowerCase 3 10 None many_users) = Num 3
   \<and> data (getPaginatedUsers latin1_toLowerCase 4 10 None many_users) = []"
proof -
  have h1: "(1 :: int) \<le> 3" and h2: "(1 :: int) \<le> 10" and h4: "(1 :: int) \<le> 4"
    by simp_all
  have l: "length (usersState many_users) = 25"
    by (simp add: many_users_def)
  from pagination [OF h1 h2, where fo = None and s = many_users
      and toLowerCase = latin1_toLowerCase]
    pagination [OF h4 h2, where fo = None and s = many_users
      and toLowerCase = latin1_toLowerCase] l
  show ?thesis
    by (simp add: Let_def)
qed

end
